theory Spec2Isabelle
  imports Complex_Main
begin

section \<open>Run naming: \<open>get_run_name\<close> of \<open>train.py\<close>\<close>

text \<open>
  \<^verbatim>\<open>
  def get_run_name(backbone: str, is_binary: bool) -> str:
      time = datetime.now().isoformat(timespec="milliseconds")

      backbone_name = backbone[backbone.find("/") + 1 :]
      run_name = f"{backbone_name}_binary={str(is_binary)}_{time}"
      return run_name
  \<close>
  Python strings are modelled as \<open>string\<close>, Python integers as \<open>int\<close>.
\<close>

subsection \<open>The string primitives the function calls\<close>

text \<open>
  \<open>s.find(sub)\<close>: the lowest index at which \<open>sub\<close> occurs in \<open>s\<close>, and \<open>-1\<close> when
  it does not occur. \<open>find_from\<close> scans with the index of the current position.
\<close>

fun find_from :: "string \<Rightarrow> string \<Rightarrow> int \<Rightarrow> int" where
  "find_from [] sub i = (if sub = [] then i else - 1)"
| "find_from (x # xs) sub i =
     (if take (length sub) (x # xs) = sub then i else find_from xs sub (i + 1))"

definition str_find :: "string \<Rightarrow> string \<Rightarrow> int" where
  "str_find s sub = find_from s sub 0"

text \<open>
  The slice \<open>s[i:]\<close>: a negative start counts from the end, and a start outside the
  string is clamped to it (\<open>nat\<close> sends a negative number to \<open>0\<close>, \<open>drop\<close> beyond the
  length gives the empty string).
\<close>

definition slice_from :: "string \<Rightarrow> int \<Rightarrow> string" where
  "slice_from s i = drop (nat (if i < 0 then int (length s) + i else i)) s"

text \<open>\<open>str(b)\<close> for a Python \<open>bool\<close>.\<close>

definition str_bool :: "bool \<Rightarrow> string" where
  "str_bool b = (if b then ''True'' else ''False'')"

subsection \<open>The function\<close>

text \<open>
  The local variable \<open>backbone_name\<close>, and the function. The reading of the clock,
  \<open>datetime.now().isoformat(timespec="milliseconds")\<close>, is the first argument \<open>time\<close>:
  the function is pure in it.
\<close>

definition backbone_name :: "string \<Rightarrow> string" where
  "backbone_name backbone = slice_from backbone (str_find backbone ''/'' + 1)"

definition get_run_name :: "string \<Rightarrow> string \<Rightarrow> bool \<Rightarrow> string" where
  "get_run_name time backbone is_binary =
     backbone_name backbone @ ''_binary='' @ str_bool is_binary @ ''_'' @ time"

subsection \<open>The words of the specification\<close>

text \<open>
  The substring after the last occurrence of a separator, and the substring after the
  first one. Both are the whole string when the separator does not occur.
\<close>

definition after_last :: "char \<Rightarrow> string \<Rightarrow> string" where
  "after_last c s = rev (takeWhile (\<lambda>x. x \<noteq> c) (rev s))"

definition after_first :: "char \<Rightarrow> string \<Rightarrow> string" where
  "after_first c s = drop (Suc (length (takeWhile (\<lambda>x. x \<noteq> c) s))) s"

text \<open>
  The segments of a run name: its fields between underscores (\<open>s.split("_")\<close>).
\<close>

fun split_on :: "char \<Rightarrow> string \<Rightarrow> string list" where
  "split_on c [] = [[]]"
| "split_on c (x # xs) =
     (if x = c then [] # split_on c xs
      else (case split_on c xs of
              [] \<Rightarrow> [[x]]
            | w # ws \<Rightarrow> (x # w) # ws))"

section \<open>The training run: \<open>train\<close> of \<open>train.py\<close>\<close>

text \<open>
  \<open>train\<close> is a straight line of calls into libraries (pathlib, torch, transformers,
  fastai) and into the modules \<open>data\<close> and \<open>utils\<close>, with two branches on its
  arguments and on the machine. The model is the trace of these calls, in the order
  of the source, each with the arguments the source passes. What the calls return is
  read from an \<open>environment\<close>. The trace is that of a run in which every call returns:
  a call that raises ends the run at that call.
\<close>

subsection \<open>Values\<close>

text \<open>\<open>torch.device("cuda")\<close> and \<open>torch.device("cpu")\<close>.\<close>

datatype device = Cuda | Cpu

text \<open>
  A \<open>pathlib\<close> path as the source builds it: \<open>Path(s)\<close>, and \<open>p / q\<close> (a string
  operand of \<open>/\<close> is the path of that string).
\<close>

datatype path = Path string | Div path path

text \<open>
  The pretrained image processor, as far as \<open>train\<close> reads it:
  \<open>size["height"]\<close>, \<open>size["width"]\<close>, \<open>image_mean\<close>, \<open>image_std\<close>. Floating-point
  values are only passed on, never computed with; a literal stands for its decimal value.
\<close>

record image_processor =
  size_height :: int
  size_width :: int
  image_mean :: "real list"
  image_std :: "real list"

text \<open>
  The objects \<open>train\<close> constructs, each as the record of the arguments of its
  constructor call. A keyword the source does not pass is \<open>None\<close>.
\<close>

record augmentation =
  aug_img_size :: "int \<times> int"
  aug_mean :: "real list"
  aug_std :: "real list"
  aug_validation :: "bool option"

record dataset =
  ds_root :: string
  ds_augmentation :: augmentation
  ds_reduce_to_binary :: bool

record dataloader =
  dl_dataset :: dataset
  dl_batch_size :: int
  dl_shuffle :: bool
  dl_num_workers :: "nat option"
  dl_pin_memory :: bool
  dl_drop_last :: "bool option"

datatype metric =
    AccumMetric_accuracy bool
  | Precision string
  | Recall string
  | F1Score string
  | RocAucBinary string
  | RocAuc string

text \<open>\<open>EarlyStoppingCallback(monitor, min_delta, patience)\<close> and \<open>CSVLogger()\<close>.\<close>

datatype callback = EarlyStoppingCallback string real nat | CSVLogger

text \<open>
  \<open>nn.CrossEntropyLoss(weight=weight, label_smoothing=0)\<close>, where \<open>weight\<close> is
  \<open>train_ds.inv_weights().to(device)\<close>.
\<close>

record loss =
  loss_weight_of :: dataset
  loss_weight_device :: device
  loss_label_smoothing :: int

record learner =
  ln_train_dl :: dataloader
  ln_valid_dl :: dataloader
  ln_device :: device
  ln_loss_func :: loss
  ln_lr :: real
  ln_wd :: real
  ln_metrics :: "metric list"
  ln_path :: path

subsection \<open>The environment\<close>

text \<open>
  What the run reads from outside: the clock
  (\<open>datetime.now().isoformat(timespec="milliseconds")\<close>), \<open>torch.cuda.is_available()\<close>,
  \<open>os.cpu_count()\<close> (\<open>None\<close> when the count is undetermined),
  \<open>AutoImageProcessor.from_pretrained\<close>, the attribute \<open>n_classes\<close> of a dataset, and
  the reports \<open>validate\<close> and \<open>validate_binarized\<close> return for the fitted model on a
  loader.
\<close>

record environment =
  now_isoformat :: string
  cuda_is_available :: bool
  cpu_count :: "nat option"
  from_pretrained :: "string \<Rightarrow> image_processor"
  n_classes :: "dataset \<Rightarrow> nat"
  validate :: "dataloader \<Rightarrow> string"
  validate_binarized :: "dataloader \<Rightarrow> string"

subsection \<open>The calls\<close>

text \<open>
  One constructor for each call of the source. \<open>With_open p mode chunks\<close> is the block
  \<open>with open(p, mode=mode) as f\<close> whose body writes \<open>chunks\<close>, one \<open>f.write\<close> each.
\<close>

datatype event =
    Path_mkdir path bool bool
  | Set_float32_matmul_precision string
  | AutoImageProcessor_from_pretrained string
  | Get_augmentation augmentation
  | HistoCRCDataset_init dataset
  | DataLoader_init dataloader
  | Describe dataset
  | Load_model string nat
  | Model_to device
  | Print_model_head
  | Print_trainable_parameters
  | Inv_weights_to dataset device
  | CrossEntropyLoss_init loss
  | DataLoaders_init dataloader dataloader device
  | Learner_init learner
  | Fit_one_cycle nat real "callback list"
  | Config_save_pretrained path
  | Torch_save_state_dict path
  | Validate dataloader
  | Validate_binarized dataloader
  | Print string
  | With_open path string "string list"

subsection \<open>The local variables\<close>

definition model_save_path :: "environment \<Rightarrow> string \<Rightarrow> string \<Rightarrow> bool \<Rightarrow> path" where
  "model_save_path env backbone save_dir binary =
     Div (Path save_dir) (Path (get_run_name (now_isoformat env) backbone binary))"

definition train_device :: "environment \<Rightarrow> device" where
  "train_device env = (if cuda_is_available env then Cuda else Cpu)"

definition get_augmentation ::
  "int \<times> int \<Rightarrow> real list \<Rightarrow> real list \<Rightarrow> bool option \<Rightarrow> augmentation" where
  "get_augmentation img_size mean std validation =
     \<lparr>aug_img_size = img_size, aug_mean = mean, aug_std = std, aug_validation = validation\<rparr>"

definition train_aug :: "environment \<Rightarrow> string \<Rightarrow> augmentation" where
  "train_aug env backbone =
     (let image_processor = from_pretrained env backbone;
          img_size = (size_height image_processor, size_width image_processor)
      in get_augmentation img_size (image_mean image_processor) (image_std image_processor)
           None)"

definition valid_aug :: "environment \<Rightarrow> string \<Rightarrow> augmentation" where
  "valid_aug env backbone =
     (let image_processor = from_pretrained env backbone;
          img_size = (size_height image_processor, size_width image_processor)
      in get_augmentation img_size (image_mean image_processor) (image_std image_processor)
           (Some True))"

definition train_ds :: "environment \<Rightarrow> string \<Rightarrow> string \<Rightarrow> bool \<Rightarrow> dataset" where
  "train_ds env backbone train_dir binary =
     \<lparr>ds_root = train_dir, ds_augmentation = train_aug env backbone,
      ds_reduce_to_binary = binary\<rparr>"

definition valid_ds :: "environment \<Rightarrow> string \<Rightarrow> string \<Rightarrow> bool \<Rightarrow> dataset" where
  "valid_ds env backbone valid_dir binary =
     \<lparr>ds_root = valid_dir, ds_augmentation = valid_aug env backbone,
      ds_reduce_to_binary = binary\<rparr>"

definition train_dl :: "environment \<Rightarrow> string \<Rightarrow> string \<Rightarrow> int \<Rightarrow> bool \<Rightarrow> dataloader" where
  "train_dl env backbone train_dir batch_size binary =
     \<lparr>dl_dataset = train_ds env backbone train_dir binary,
      dl_batch_size = batch_size,
      dl_shuffle = True,
      dl_num_workers = cpu_count env,
      dl_pin_memory = True,
      dl_drop_last = Some True\<rparr>"

definition valid_dl :: "environment \<Rightarrow> string \<Rightarrow> string \<Rightarrow> int \<Rightarrow> bool \<Rightarrow> dataloader" where
  "valid_dl env backbone valid_dir batch_size binary =
     \<lparr>dl_dataset = valid_ds env backbone valid_dir binary,
      dl_batch_size = batch_size,
      dl_shuffle = False,
      dl_num_workers = cpu_count env,
      dl_pin_memory = True,
      dl_drop_last = None\<rparr>"

definition criterion :: "environment \<Rightarrow> string \<Rightarrow> string \<Rightarrow> bool \<Rightarrow> loss" where
  "criterion env backbone train_dir binary =
     \<lparr>loss_weight_of = train_ds env backbone train_dir binary,
      loss_weight_device = train_device env,
      loss_label_smoothing = 0\<rparr>"

definition train_learner ::
  "environment \<Rightarrow> string \<Rightarrow> string \<Rightarrow> string \<Rightarrow> string \<Rightarrow> int \<Rightarrow> bool \<Rightarrow> learner" where
  "train_learner env backbone train_dir valid_dir save_dir batch_size binary =
     \<lparr>ln_train_dl = train_dl env backbone train_dir batch_size binary,
      ln_valid_dl = valid_dl env backbone valid_dir batch_size binary,
      ln_device = train_device env,
      ln_loss_func = criterion env backbone train_dir binary,
      ln_lr = 1 / 10000,
      ln_wd = 1 / 1000000,
      ln_metrics =
        [AccumMetric_accuracy False, Precision ''macro'', Recall ''macro'', F1Score ''macro'',
         if binary then RocAucBinary ''macro'' else RocAuc ''macro''],
      ln_path = model_save_path env backbone save_dir binary\<rparr>"

text \<open>\<open>n * s\<close> for an integer and a string.\<close>

definition str_times :: "int \<Rightarrow> string \<Rightarrow> string" where
  "str_times n s = concat (replicate (nat n) s)"

subsection \<open>The function\<close>

definition train ::
  "environment \<Rightarrow> string \<Rightarrow> string \<Rightarrow> string \<Rightarrow> string \<Rightarrow> int \<Rightarrow> bool \<Rightarrow> event list" where
  "train env backbone train_dir valid_dir save_dir batch_size binary =
     (let save_path = model_save_path env backbone save_dir binary;
          use_gpu = cuda_is_available env;
          dev = train_device env;
          tr_ds = train_ds env backbone train_dir binary;
          va_ds = valid_ds env backbone valid_dir binary;
          tr_dl = train_dl env backbone train_dir batch_size binary;
          va_dl = valid_dl env backbone valid_dir batch_size binary;
          report = validate env va_dl;
          report_binarized = validate_binarized env va_dl
      in [Path_mkdir save_path True True]
         @ (if use_gpu then [Set_float32_matmul_precision ''high''] else [])
         @ [AutoImageProcessor_from_pretrained backbone,
            Get_augmentation (train_aug env backbone),
            Get_augmentation (valid_aug env backbone),
            HistoCRCDataset_init tr_ds,
            HistoCRCDataset_init va_ds,
            DataLoader_init tr_dl,
            DataLoader_init va_dl,
            Describe tr_ds,
            Load_model backbone (n_classes env tr_ds),
            Model_to dev,
            Print_model_head,
            Print_trainable_parameters,
            Inv_weights_to tr_ds dev,
            CrossEntropyLoss_init (criterion env backbone train_dir binary),
            DataLoaders_init tr_dl va_dl dev,
            Learner_init
              (train_learner env backbone train_dir valid_dir save_dir batch_size binary),
            Fit_one_cycle 4 (1 / 10000)
              [EarlyStoppingCallback ''valid_loss'' (1 / 100) 4, CSVLogger],
            Config_save_pretrained save_path,
            Torch_save_state_dict (Div save_path (Path ''model.pt'')),
            Validate va_dl,
            Print report,
            With_open (Div save_path (Path ''report.txt'')) ''w'' [report]]
         @ (if \<not> binary
            then [Validate_binarized va_dl,
                  Print report_binarized,
                  With_open (Div save_path (Path ''report.txt'')) ''a''
                    [str_times 5 [CHR 0x0A] @ ''Binarized:'', report_binarized]]
            else []))"

subsection \<open>The files the run writes with \<open>open\<close>\<close>

text \<open>
  The contents of the files written through \<open>open\<close>: mode \<open>w\<close> creates the file or
  empties it, mode \<open>a\<close> creates it or keeps what it holds, and each \<open>write\<close> adds its
  string at the end. The other calls of the trace write files of other names
  (the configuration, \<open>model.pt\<close>, the logger's table) and leave these alone.
\<close>

type_synonym files = "path \<rightharpoonup> string"

fun write_event :: "event \<Rightarrow> files \<Rightarrow> files" where
  "write_event (With_open p mode chunks) fs =
     (if mode = ''w'' then fs(p \<mapsto> concat chunks)
      else if mode = ''a''
      then fs(p \<mapsto> (case fs p of None \<Rightarrow> [] | Some old \<Rightarrow> old) @ concat chunks)
      else fs)"
| "write_event e fs = fs"

definition files_after :: "event list \<Rightarrow> files \<Rightarrow> files" where
  "files_after evs fs = fold write_event evs fs"

section \<open>The save directory: \<open>Path.mkdir\<close>\<close>

text \<open>
  \<open>train\<close> creates the save directory with
  \<open>model_save_path.mkdir(parents=True, exist_ok=True)\<close>. What this call does is decided
  by \<open>pathlib\<close>, whose method is
  \<^verbatim>\<open>
  def mkdir(self, mode=0o777, parents=False, exist_ok=False):
      try:
          os.mkdir(self, mode)
      except FileNotFoundError:
          if not parents or self.parent == self:
              raise
          self.parent.mkdir(parents=True, exist_ok=True)
          self.mkdir(mode, parents=False, exist_ok=exist_ok)
      except OSError:
          if not exist_ok or not self.is_dir():
              raise
  \<close>
  and by the file system under it. The file system is a tree of directories and regular
  files, without symbolic links and without permissions: a node is the list of names
  from the root to it. A path is the node its resolution starts from (the working
  directory, or the root for an absolute path) and its parts; \<open>pathlib\<close> keeps a part
  \<open>..\<close> as it is, and the file system resolves it to the parent of the directory reached.
\<close>

text \<open>The errors of \<open>os.mkdir\<close> in this tree, as Python raises them.\<close>

datatype os_error = FileNotFoundError | NotADirectoryError | FileExistsError

type_synonym node = "string list"

record filesystem =
  fs_dirs :: "node set"
  fs_files :: "node set"

text \<open>
  Resolution of the parts of a path, each of which has to be a directory: a missing
  name is \<open>ENOENT\<close>, a regular file on the way is \<open>ENOTDIR\<close>.
\<close>

fun walk_dir :: "filesystem \<Rightarrow> node \<Rightarrow> string list \<Rightarrow> os_error + node" where
  "walk_dir fs cur [] = Inr cur"
| "walk_dir fs cur (c # cs) =
     (if c = ''..'' then walk_dir fs (butlast cur) cs
      else if cur @ [c] \<in> fs_dirs fs then walk_dir fs (cur @ [c]) cs
      else if cur @ [c] \<in> fs_files fs then Inl NotADirectoryError
      else Inl FileNotFoundError)"

text \<open>
  \<open>os.mkdir\<close>: the parent has to resolve to a directory, and the last name must not
  exist there (\<open>.\<close>, the root and \<open>..\<close> always exist). It creates one directory.
\<close>

definition os_mkdir :: "filesystem \<Rightarrow> node \<Rightarrow> string list \<Rightarrow> os_error + filesystem" where
  "os_mkdir fs start parts =
     (if parts = [] then Inl FileExistsError
      else (case walk_dir fs start (butlast parts) of
              Inl e \<Rightarrow> Inl e
            | Inr d \<Rightarrow>
                (let new = d @ [last parts]
                 in if last parts = ''..'' \<or> new \<in> fs_dirs fs \<or> new \<in> fs_files fs
                    then Inl FileExistsError
                    else Inr (fs\<lparr>fs_dirs := insert new (fs_dirs fs)\<rparr>))))"

text \<open>\<open>Path.is_dir\<close>: the path resolves, to a directory.\<close>

definition is_dir :: "filesystem \<Rightarrow> node \<Rightarrow> string list \<Rightarrow> bool" where
  "is_dir fs start parts = (case walk_dir fs start parts of Inl e \<Rightarrow> False | Inr d \<Rightarrow> True)"

text \<open>
  \<open>Path.parent\<close> drops the last part; the parent of a path without parts is the path
  itself.
\<close>

definition parent :: "string list \<Rightarrow> string list" where
  "parent parts = butlast parts"

text \<open>
  \<open>Path.mkdir\<close>. An error raised inside the first handler, by either of the two
  calls there, leaves the method.
\<close>

function mkdir ::
  "filesystem \<Rightarrow> node \<Rightarrow> string list \<Rightarrow> bool \<Rightarrow> bool \<Rightarrow> os_error + filesystem" where
  "mkdir fs start parts parents exist_ok =
     (case os_mkdir fs start parts of
        Inr fs' \<Rightarrow> Inr fs'
      | Inl e \<Rightarrow>
          if e = FileNotFoundError then
            (if \<not> parents \<or> parent parts = parts then Inl e
             else (case mkdir fs start (parent parts) True True of
                     Inl e' \<Rightarrow> Inl e'
                   | Inr fs1 \<Rightarrow> mkdir fs1 start parts False exist_ok))
          else (if \<not> exist_ok \<or> \<not> is_dir fs start parts then Inl e else Inr fs))"
  by pat_completeness auto
termination
proof (relation "measure (\<lambda>(fs, start, parts, parents, exist_ok).
         2 * length parts + (if parents then 1 else 0))")
  show "wf (measure (\<lambda>(fs, start, parts, parents, exist_ok).
         2 * length parts + (if parents then 1 else 0)))"
    by simp
next
  fix fs :: filesystem and start parts :: "string list" and parents exist_ok :: bool and e
  assume "\<not> (\<not> parents \<or> parent parts = parts)"
  then have "parts \<noteq> []" by (auto simp: parent_def)
  then show "((fs, start, parent parts, True, True), (fs, start, parts, parents, exist_ok))
      \<in> measure (\<lambda>(fs, start, parts, parents, exist_ok).
           2 * length parts + (if parents then 1 else 0))"
    by (cases parts rule: rev_cases) (auto simp: parent_def)
next
  fix fs :: filesystem and start parts :: "string list" and parents exist_ok :: bool and e
    and fs1 :: filesystem
  assume "\<not> (\<not> parents \<or> parent parts = parts)"
  then show "((fs1, start, parts, False, exist_ok), (fs, start, parts, parents, exist_ok))
      \<in> measure (\<lambda>(fs, start, parts, parents, exist_ok).
           2 * length parts + (if parents then 1 else 0))"
    by auto
qed

declare mkdir.simps [simp del]

text \<open>
  The node a path would lead to if every missing directory on its way were there, and
  whether a regular file stands on that way. A well-formed tree has its root, holds the
  parent directory of every node, and has no node that is both a directory and a file.
\<close>

fun vnode :: "node \<Rightarrow> string list \<Rightarrow> node" where
  "vnode cur [] = cur"
| "vnode cur (c # cs) = (if c = ''..'' then vnode (butlast cur) cs else vnode (cur @ [c]) cs)"

fun blocked :: "filesystem \<Rightarrow> node \<Rightarrow> string list \<Rightarrow> bool" where
  "blocked fs cur [] = False"
| "blocked fs cur (c # cs) =
     (if c = ''..'' then blocked fs (butlast cur) cs
      else if cur @ [c] \<in> fs_files fs then True
      else blocked fs (cur @ [c]) cs)"

definition wf_fs :: "filesystem \<Rightarrow> bool" where
  "wf_fs fs \<longleftrightarrow>
     [] \<in> fs_dirs fs
     \<and> (\<forall>n \<in> fs_dirs fs. butlast n \<in> fs_dirs fs)
     \<and> (\<forall>n \<in> fs_files fs. butlast n \<in> fs_dirs fs)
     \<and> fs_dirs fs \<inter> fs_files fs = {}"

section \<open>Properties of run naming\<close>

lemma find_from_char:
  "find_from s [c] i =
     (if c \<in> set s then i + int (length (takeWhile (\<lambda>x. x \<noteq> c) s)) else - 1)"
  by (induction s arbitrary: i) auto

lemma str_find_char:
  "str_find s [c] =
     (if c \<in> set s then int (length (takeWhile (\<lambda>x. x \<noteq> c) s)) else - 1)"
  by (simp add: str_find_def find_from_char)

lemma backbone_name_with_sep:
  "CHR ''/'' \<in> set backbone \<Longrightarrow> backbone_name backbone = after_first CHR ''/'' backbone"
  by (simp add: backbone_name_def str_find_char slice_from_def after_first_def nat_add_distrib)

lemma backbone_name_without_sep:
  "CHR ''/'' \<notin> set backbone \<Longrightarrow> backbone_name backbone = backbone"
  by (simp add: backbone_name_def str_find_char slice_from_def)

lemma after_first_decompose:
  "c \<in> set s \<Longrightarrow> s = takeWhile (\<lambda>x. x \<noteq> c) s @ c # after_first c s"
proof (induction s)
  case Nil
  then show ?case by simp
next
  case (Cons x xs)
  then show ?case by (cases "x = c") (simp_all add: after_first_def)
qed

lemma takeWhile_neq_absent: "c \<notin> set xs \<Longrightarrow> takeWhile (\<lambda>x. x \<noteq> c) xs = xs"
  by (induction xs) auto

lemma takeWhile_neq_append_absent:
  "c \<notin> set xs \<Longrightarrow> takeWhile (\<lambda>x. x \<noteq> c) (xs @ c # ys) = xs"
  by (induction xs) auto

lemma takeWhile_neq_append_present:
  "c \<in> set xs \<Longrightarrow> takeWhile (\<lambda>x. x \<noteq> c) (xs @ ys) = takeWhile (\<lambda>x. x \<noteq> c) xs"
  by (induction xs) auto

lemma length_takeWhile_neq_present:
  "c \<in> set xs \<Longrightarrow> length (takeWhile (\<lambda>x. x \<noteq> c) xs) < length xs"
  by (induction xs) auto

lemma after_last_no_sep: "c \<notin> set s \<Longrightarrow> after_last c s = s"
  by (simp add: after_last_def takeWhile_neq_absent)

lemma after_last_append_sep:
  "after_last c (pre @ c # rest) = after_last c rest"
proof (cases "c \<in> set rest")
  case True
  then show ?thesis by (simp add: after_last_def takeWhile_neq_append_present)
next
  case False
  then show ?thesis
    by (simp add: after_last_def takeWhile_neq_append_absent takeWhile_neq_absent)
qed

lemma length_after_last: "c \<in> set s \<Longrightarrow> length (after_last c s) < length s"
  using length_takeWhile_neq_present [of c "rev s"] by (simp add: after_last_def)

lemma after_first_eq_after_last:
  assumes "c \<in> set s"
  shows "after_first c s = after_last c s \<longleftrightarrow> count_list s c = 1"
proof -
  let ?pre = "takeWhile (\<lambda>x. x \<noteq> c) s"
  let ?rest = "after_first c s"
  have dec: "s = ?pre @ c # ?rest" using assms by (rule after_first_decompose)
  have pre: "c \<notin> set ?pre" by (auto dest: set_takeWhileD)
  have "count_list s c = count_list (?pre @ c # ?rest) c" using dec by simp
  also have "\<dots> = Suc (count_list ?rest c)" using pre by simp
  finally have cnt: "count_list s c = 1 \<longleftrightarrow> c \<notin> set ?rest"
    by (simp add: count_list_0_iff)
  have "after_last c s = after_last c (?pre @ c # ?rest)" using dec by simp
  then have al: "after_last c s = after_last c ?rest" by (simp only: after_last_append_sep)
  show ?thesis
  proof (cases "c \<in> set ?rest")
    case True
    then have "length (after_last c ?rest) < length ?rest" by (rule length_after_last)
    then have "?rest \<noteq> after_last c s" using al by auto
    then show ?thesis using cnt True by simp
  next
    case False
    then have "after_last c s = ?rest" using al by (simp add: after_last_no_sep)
    then show ?thesis using cnt False by simp
  qed
qed

lemma split_on_nonempty: "split_on c s \<noteq> []"
  by (induction s) (auto split: list.splits)

lemma split_on_append_sep:
  "split_on c (a @ c # b) = split_on c a @ split_on c b"
proof (induction a)
  case Nil
  then show ?case by simp
next
  case (Cons x xs)
  then show ?case
    using split_on_nonempty [of c xs] by (auto split: list.splits)
qed

lemma split_on_no_sep: "c \<notin> set s \<Longrightarrow> split_on c s = [s]"
  by (induction s) auto

subsection \<open>The backbone segment\<close>

text \<open>
  C1, as the specification states it: for a backbone that contains a \<open>/\<close>, the backbone
  segment of the run name is the substring after the last \<open>/\<close>. The code slices at the
  index \<open>find\<close> returns, which is that of the first \<open>/\<close>: for the backbone
  \<open>hub/microsoft/swinv2\<close> the run name starts with \<open>microsoft/swinv2\<close>, not with
  \<open>swinv2\<close>.
\<close>

theorem get_run_name_after_last_counterexample:
  "CHR ''/'' \<in> set ''hub/microsoft/swinv2'' \<and>
   get_run_name ''2024-01-01T00:00:00.000'' ''hub/microsoft/swinv2'' False =
     ''microsoft/swinv2_binary=False_2024-01-01T00:00:00.000'' \<and>
   after_last CHR ''/'' ''hub/microsoft/swinv2'' = ''swinv2'' \<and>
   get_run_name ''2024-01-01T00:00:00.000'' ''hub/microsoft/swinv2'' False \<noteq>
     after_last CHR ''/'' ''hub/microsoft/swinv2'' @ ''_binary='' @ str_bool False @ ''_'' @
       ''2024-01-01T00:00:00.000''"
  by (simp add: get_run_name_def backbone_name_def str_find_def slice_from_def
      after_last_def str_bool_def)

text \<open>
  C1, amended: for a backbone that contains a \<open>/\<close>, the backbone segment of the run
  name is the substring after the first \<open>/\<close>; it is the substring after the last \<open>/\<close>
  exactly when the backbone contains a single \<open>/\<close>.
\<close>

theorem get_run_name_after_first:
  assumes "CHR ''/'' \<in> set backbone"
  shows "get_run_name time backbone is_binary =
           after_first CHR ''/'' backbone @ ''_binary='' @ str_bool is_binary @ ''_'' @ time
         \<and> (backbone_name backbone = after_last CHR ''/'' backbone \<longleftrightarrow>
              count_list backbone CHR ''/'' = 1)"
proof -
  have seg: "backbone_name backbone = after_first CHR ''/'' backbone"
    using assms by (rule backbone_name_with_sep)
  have name: "get_run_name time backbone is_binary =
          after_first CHR ''/'' backbone @ ''_binary='' @ str_bool is_binary @ ''_'' @ time"
    by (simp add: get_run_name_def seg)
  have single: "backbone_name backbone = after_last CHR ''/'' backbone \<longleftrightarrow>
          count_list backbone CHR ''/'' = 1"
    using after_first_eq_after_last [OF assms] by (simp add: seg)
  show ?thesis using name single by (rule conjI)
qed

theorem get_run_name_after_first_witness:
  "CHR ''/'' \<in> set ''microsoft/swinv2-tiny'' \<and>
   get_run_name ''2024-01-01T00:00:00.000'' ''microsoft/swinv2-tiny'' True =
     ''swinv2-tiny_binary=True_2024-01-01T00:00:00.000'' \<and>
   backbone_name ''microsoft/swinv2-tiny'' = after_last CHR ''/'' ''microsoft/swinv2-tiny''"
proof -
  have h: "CHR ''/'' \<in> set ''microsoft/swinv2-tiny''" by simp
  have a: "after_first CHR ''/'' ''microsoft/swinv2-tiny'' = ''swinv2-tiny''"
    by (simp add: after_first_def)
  have c: "count_list ''microsoft/swinv2-tiny'' CHR ''/'' = 1" by simp
  show ?thesis
    using get_run_name_after_first [OF h, of "''2024-01-01T00:00:00.000''" True] h a c
    by (simp add: str_bool_def)
qed

text \<open>
  C10: for a backbone that contains no \<open>/\<close>, \<open>find\<close> returns \<open>-1\<close>, the slice starts at
  index \<open>0\<close>, and the backbone segment of the run name is the whole backbone.
\<close>

theorem get_run_name_no_separator:
  assumes "CHR ''/'' \<notin> set backbone"
  shows "str_find backbone ''/'' + 1 = 0
         \<and> backbone_name backbone = backbone
         \<and> get_run_name time backbone is_binary =
             backbone @ ''_binary='' @ str_bool is_binary @ ''_'' @ time"
  using assms
  by (simp add: get_run_name_def backbone_name_without_sep str_find_char)

theorem get_run_name_no_separator_witness:
  "CHR ''/'' \<notin> set ''resnet50'' \<and>
   str_find ''resnet50'' ''/'' + 1 = 0 \<and>
   backbone_name ''resnet50'' = ''resnet50'' \<and>
   get_run_name ''2024-01-01T00:00:00.000'' ''resnet50'' False =
     ''resnet50_binary=False_2024-01-01T00:00:00.000''"
proof -
  have h: "CHR ''/'' \<notin> set ''resnet50''" by simp
  show ?thesis
    using get_run_name_no_separator [OF h, of "''2024-01-01T00:00:00.000''" False] h
    by (simp add: str_bool_def)
qed

subsection \<open>The timestamp and the flag\<close>

text \<open>
  C2: for a fixed backbone and flag, two calls whose millisecond timestamps differ
  return distinct run names.
\<close>

theorem get_run_name_distinct_timestamps:
  "time1 \<noteq> time2 \<Longrightarrow>
     get_run_name time1 backbone is_binary \<noteq> get_run_name time2 backbone is_binary"
  by (simp add: get_run_name_def)

theorem get_run_name_distinct_timestamps_witness:
  "''2024-01-01T00:00:00.000'' \<noteq> ''2024-01-01T00:00:00.001'' \<and>
   get_run_name ''2024-01-01T00:00:00.000'' ''google/efficientnet-b0'' True \<noteq>
     get_run_name ''2024-01-01T00:00:00.001'' ''google/efficientnet-b0'' True"
proof -
  have h: "''2024-01-01T00:00:00.000'' \<noteq> ''2024-01-01T00:00:00.001''" by simp
  show ?thesis
    using get_run_name_distinct_timestamps [OF h, of "''google/efficientnet-b0''" True] h
    by blast
qed

text \<open>
  C3: the run name has a \<open>binary=\<close> segment, and its text is the string form of the
  flag: \<open>True\<close> for a true flag and \<open>False\<close> for a false one. The segment stands between
  the backbone segment and the timestamp, and it is one of the underscore-separated
  fields of the run name.
\<close>

theorem get_run_name_binary_segment:
  "get_run_name time backbone is_binary =
     backbone_name backbone @ ''_'' @
       (''binary='' @ (if is_binary then ''True'' else ''False'')) @ ''_'' @ time
   \<and> split_on CHR ''_'' (get_run_name time backbone is_binary) =
       split_on CHR ''_'' (backbone_name backbone) @
         [''binary='' @ (if is_binary then ''True'' else ''False'')] @
         split_on CHR ''_'' time"
proof -
  let ?seg = "''binary='' @ (if is_binary then ''True'' else ''False'')"
  have name: "get_run_name time backbone is_binary =
      backbone_name backbone @ CHR ''_'' # (?seg @ CHR ''_'' # time)"
    by (simp add: get_run_name_def str_bool_def)
  have nosep: "CHR ''_'' \<notin> set ?seg" by simp
  have seg: "split_on CHR ''_'' (?seg @ CHR ''_'' # time) = [?seg] @ split_on CHR ''_'' time"
    using split_on_no_sep [OF nosep] by (simp only: split_on_append_sep)
  have "split_on CHR ''_'' (get_run_name time backbone is_binary) =
      split_on CHR ''_'' (backbone_name backbone) @ split_on CHR ''_'' (?seg @ CHR ''_'' # time)"
    by (simp only: name split_on_append_sep)
  then show ?thesis using seg name by simp
qed

section \<open>Properties of the training run\<close>

text \<open>
  The properties read the trace through list comprehensions: \<open>[x. C x \<leftarrow> trace]\<close> is the
  list of the arguments of the calls \<open>C\<close> of the trace, in order.
\<close>

text \<open>
  C7: the device is the accelerator when \<open>torch.cuda.is_available()\<close> holds and the CPU
  otherwise; the model is moved to that device; and the float32 matrix multiplication
  precision is set, to \<open>high\<close>, exactly when an accelerator is available.
\<close>

theorem train_device_and_precision:
  "train_device env = (if cuda_is_available env then Cuda else Cpu)
   \<and> (train_device env = Cuda \<longleftrightarrow> cuda_is_available env)
   \<and> [d. Model_to d \<leftarrow> train env backbone train_dir valid_dir save_dir batch_size binary] =
       [train_device env]
   \<and> [p. Set_float32_matmul_precision p \<leftarrow>
         train env backbone train_dir valid_dir save_dir batch_size binary] =
       (if cuda_is_available env then [''high''] else [])"
  by (cases binary; cases "cuda_is_available env"; simp add: train_def Let_def train_device_def)

text \<open>
  C5: the run constructs two loaders, the training loader and then the validation
  loader. The training loader shuffles and drops the last partial batch; the validation
  loader does not shuffle and is given no \<open>drop_last\<close>; both get \<open>os.cpu_count()\<close> as
  their number of workers.
\<close>

theorem train_dataloaders:
  "[dl. DataLoader_init dl \<leftarrow> train env backbone train_dir valid_dir save_dir batch_size binary] =
     [train_dl env backbone train_dir batch_size binary,
      valid_dl env backbone valid_dir batch_size binary]
   \<and> dl_shuffle (train_dl env backbone train_dir batch_size binary) = True
   \<and> dl_drop_last (train_dl env backbone train_dir batch_size binary) = Some True
   \<and> dl_num_workers (train_dl env backbone train_dir batch_size binary) = cpu_count env
   \<and> dl_shuffle (valid_dl env backbone valid_dir batch_size binary) = False
   \<and> dl_drop_last (valid_dl env backbone valid_dir batch_size binary) = None
   \<and> dl_num_workers (valid_dl env backbone valid_dir batch_size binary) = cpu_count env"
  by (cases binary; cases "cuda_is_available env";
      simp add: train_def Let_def train_dl_def valid_dl_def)

text \<open>
  C8: the model is constructed once in a run, and the class count passed to its
  construction is the \<open>n_classes\<close> of the training dataset.
\<close>

theorem train_class_count:
  "[(b, n). Load_model b n \<leftarrow> train env backbone train_dir valid_dir save_dir batch_size binary] =
     [(backbone, n_classes env (train_ds env backbone train_dir binary))]"
  by (cases binary; cases "cuda_is_available env"; simp add: train_def Let_def)

text \<open>
  C6: the run fits once, with \<open>fit_one_cycle\<close>: 4 epochs, the peak learning rate
  \<open>1e-4\<close>, and the callbacks \<open>EarlyStoppingCallback\<close> (monitoring \<open>valid_loss\<close>, minimum
  delta \<open>0.01\<close>, patience 4) and \<open>CSVLogger\<close>.
\<close>

theorem train_fit_one_cycle:
  "[(n_epoch, lr_max, cbs). Fit_one_cycle n_epoch lr_max cbs \<leftarrow>
      train env backbone train_dir valid_dir save_dir batch_size binary] =
     [(4, 1 / 10000, [EarlyStoppingCallback ''valid_loss'' (1 / 100) 4, CSVLogger])]"
  by (cases binary; cases "cuda_is_available env"; simp add: train_def Let_def)

text \<open>
  C4: \<open>validate_binarized\<close> is called, and its report appended to \<open>report.txt\<close>, exactly
  when \<open>binary\<close> is false. After the run \<open>report.txt\<close> holds the report of \<open>validate\<close>
  alone when \<open>binary\<close> is true, and that report, five newlines, \<open>Binarized:\<close> and the
  binarized report when \<open>binary\<close> is false, whatever the file held before.
\<close>

theorem train_report:
  "[dl. Validate_binarized dl \<leftarrow> train env backbone train_dir valid_dir save_dir batch_size binary] =
     (if binary then [] else [valid_dl env backbone valid_dir batch_size binary])
   \<and> [(p, chunks). With_open p ''a'' chunks \<leftarrow>
        train env backbone train_dir valid_dir save_dir batch_size binary] =
     (if binary then []
      else [(Div (model_save_path env backbone save_dir binary) (Path ''report.txt''),
             [[CHR 0x0A, CHR 0x0A, CHR 0x0A, CHR 0x0A, CHR 0x0A] @ ''Binarized:'',
              validate_binarized env (valid_dl env backbone valid_dir batch_size binary)])])
   \<and> files_after (train env backbone train_dir valid_dir save_dir batch_size binary) fs
       (Div (model_save_path env backbone save_dir binary) (Path ''report.txt'')) =
     Some (if binary then validate env (valid_dl env backbone valid_dir batch_size binary)
           else validate env (valid_dl env backbone valid_dir batch_size binary)
                @ [CHR 0x0A, CHR 0x0A, CHR 0x0A, CHR 0x0A, CHR 0x0A] @ ''Binarized:''
                @ validate_binarized env (valid_dl env backbone valid_dir batch_size binary))"
  by (cases binary; cases "cuda_is_available env";
      simp add: train_def Let_def files_after_def str_times_def eval_nat_numeral)

section \<open>Properties of the save directory\<close>

lemma walk_dir_append:
  "walk_dir fs cur (xs @ ys) =
     (case walk_dir fs cur xs of Inl e \<Rightarrow> Inl e | Inr d \<Rightarrow> walk_dir fs d ys)"
  by (induction xs arbitrary: cur) auto

lemma walk_dir_mono:
  "fs_dirs fs \<subseteq> fs_dirs fs' \<Longrightarrow> walk_dir fs cur xs = Inr d \<Longrightarrow> walk_dir fs' cur xs = Inr d"
  by (induction xs arbitrary: cur) (auto split: if_splits)

lemma is_dir_prefix: "is_dir fs start (q @ r) \<Longrightarrow> is_dir fs start q"
  by (auto simp: is_dir_def walk_dir_append split: sum.splits)

lemma os_mkdir_created:
  assumes "os_mkdir fs start parts = Inr fs'"
  shows "is_dir fs' start parts \<and> fs_dirs fs \<subseteq> fs_dirs fs' \<and> fs_files fs' = fs_files fs"
proof -
  from assms have ne: "parts \<noteq> []" by (auto simp: os_mkdir_def split: if_splits)
  from assms ne obtain d where
    d: "walk_dir fs start (butlast parts) = Inr d" and
    c: "last parts \<noteq> ''..''" and
    fs': "fs' = fs\<lparr>fs_dirs := insert (d @ [last parts]) (fs_dirs fs)\<rparr>"
    by (auto simp: os_mkdir_def Let_def split: if_splits sum.splits)
  have sub: "fs_dirs fs \<subseteq> fs_dirs fs'" using fs' by auto
  have "walk_dir fs' start (butlast parts) = Inr d" using sub d by (rule walk_dir_mono)
  then have "walk_dir fs' start (butlast parts @ [last parts]) = Inr (d @ [last parts])"
    using c fs' by (simp add: walk_dir_append)
  then have "is_dir fs' start parts" using ne by (simp add: is_dir_def)
  then show ?thesis using sub fs' by simp
qed

lemma os_mkdir_exists:
  assumes "is_dir fs start parts"
  shows "os_mkdir fs start parts = Inl FileExistsError"
proof (cases parts rule: rev_cases)
  case Nil
  then show ?thesis by (simp add: os_mkdir_def)
next
  case (snoc q c)
  with assms obtain d where d: "walk_dir fs start q = Inr d"
    and r: "c = ''..'' \<or> d @ [c] \<in> fs_dirs fs"
    by (auto simp: is_dir_def walk_dir_append split: sum.splits if_splits)
  then show ?thesis using snoc by (auto simp: os_mkdir_def)
qed

lemma mkdir_exists:
  "is_dir fs start parts \<Longrightarrow> mkdir fs start parts parents True = Inr fs"
  by (subst mkdir.simps) (simp add: os_mkdir_exists)

lemma mkdir_created:
  "mkdir fs start parts parents exist_ok = Inr fs' \<Longrightarrow>
     is_dir fs' start parts \<and> fs_dirs fs \<subseteq> fs_dirs fs' \<and> fs_files fs' = fs_files fs"
proof (induction fs start parts parents exist_ok arbitrary: fs' rule: mkdir.induct)
  case (1 fs start parts parents exist_ok)
  show ?case
  proof (cases "os_mkdir fs start parts")
    case (Inr fs2)
    then have "fs' = fs2" using "1.prems" by (subst (asm) mkdir.simps) simp
    then show ?thesis using os_mkdir_created [OF Inr] by simp
  next
    case (Inl e)
    show ?thesis
    proof (cases "e = FileNotFoundError")
      case False
      then have "fs' = fs \<and> is_dir fs start parts"
        using "1.prems" Inl by (subst (asm) mkdir.simps) (simp split: if_splits)
      then show ?thesis by simp
    next
      case True
      then obtain fs1 where
        go: "\<not> (\<not> parents \<or> parent parts = parts)" and
        up: "mkdir fs start (parent parts) True True = Inr fs1" and
        again: "mkdir fs1 start parts False exist_ok = Inr fs'"
        using "1.prems" Inl
        by (subst (asm) mkdir.simps) (auto split: if_splits sum.splits)
      have a: "fs_dirs fs \<subseteq> fs_dirs fs1 \<and> fs_files fs1 = fs_files fs"
        using "1.IH"(1) [OF Inl True go up] by simp
      have b: "is_dir fs' start parts \<and> fs_dirs fs1 \<subseteq> fs_dirs fs' \<and> fs_files fs' = fs_files fs1"
        using "1.IH"(2) [OF Inl True go up again] .
      show ?thesis using a b by auto
    qed
  qed
qed

lemma walk_dir_vnode: "walk_dir fs cur xs = Inr d \<Longrightarrow> d = vnode cur xs"
  by (induction xs arbitrary: cur) (auto split: if_splits)

lemma walk_dir_in_dirs:
  "wf_fs fs \<Longrightarrow> cur \<in> fs_dirs fs \<Longrightarrow> walk_dir fs cur xs = Inr d \<Longrightarrow> d \<in> fs_dirs fs"
  by (induction xs arbitrary: cur) (auto simp: wf_fs_def split: if_splits)

lemma walk_dir_not_a_directory:
  "walk_dir fs cur xs = Inl e \<Longrightarrow> e \<noteq> FileNotFoundError \<Longrightarrow> blocked fs cur xs"
  by (induction xs arbitrary: cur) (auto split: if_splits)

lemma walk_dir_not_blocked:
  "wf_fs fs \<Longrightarrow> walk_dir fs cur xs = Inr d \<Longrightarrow> \<not> blocked fs cur xs"
  by (induction xs arbitrary: cur) (auto simp: wf_fs_def split: if_splits)

lemma blocked_append:
  "blocked fs cur (xs @ ys) \<longleftrightarrow> blocked fs cur xs \<or> blocked fs (vnode cur xs) ys"
  by (induction xs arbitrary: cur) auto

lemma blocked_files: "fs_files fs' = fs_files fs \<Longrightarrow> blocked fs' cur xs = blocked fs cur xs"
  by (induction xs arbitrary: cur) auto

lemma os_mkdir_wf:
  assumes "wf_fs fs" and "start \<in> fs_dirs fs" and "os_mkdir fs start parts = Inr fs'"
  shows "wf_fs fs'"
proof -
  from assms(3) obtain d where
    d: "walk_dir fs start (butlast parts) = Inr d" and
    new: "d @ [last parts] \<notin> fs_files fs" and
    fs': "fs' = fs\<lparr>fs_dirs := insert (d @ [last parts]) (fs_dirs fs)\<rparr>"
    by (auto simp: os_mkdir_def Let_def split: if_splits sum.splits)
  have "d \<in> fs_dirs fs" using assms(1,2) d by (rule walk_dir_in_dirs)
  then show ?thesis using assms(1) new fs' by (auto simp: wf_fs_def)
qed

lemma mkdir_wf:
  "mkdir fs start parts parents exist_ok = Inr fs' \<Longrightarrow> wf_fs fs \<Longrightarrow> start \<in> fs_dirs fs \<Longrightarrow>
     wf_fs fs'"
proof (induction fs start parts parents exist_ok arbitrary: fs' rule: mkdir.induct)
  case (1 fs start parts parents exist_ok)
  show ?case
  proof (cases "os_mkdir fs start parts")
    case (Inr fs2)
    then have "fs' = fs2" using "1.prems"(1) by (subst (asm) mkdir.simps) simp
    then show ?thesis using os_mkdir_wf [OF "1.prems"(2,3) Inr] by simp
  next
    case (Inl e)
    show ?thesis
    proof (cases "e = FileNotFoundError")
      case False
      then have "fs' = fs"
        using "1.prems"(1) Inl by (subst (asm) mkdir.simps) (simp split: if_splits)
      then show ?thesis using "1.prems"(2) by simp
    next
      case True
      then obtain fs1 where
        go: "\<not> (\<not> parents \<or> parent parts = parts)" and
        up: "mkdir fs start (parent parts) True True = Inr fs1" and
        again: "mkdir fs1 start parts False exist_ok = Inr fs'"
        using "1.prems"(1) Inl
        by (subst (asm) mkdir.simps) (auto split: if_splits sum.splits)
      have wf1: "wf_fs fs1" using "1.IH"(1) [OF Inl True go up "1.prems"(2,3)] .
      have "fs_dirs fs \<subseteq> fs_dirs fs1" using mkdir_created [OF up] by simp
      then have st1: "start \<in> fs_dirs fs1" using "1.prems"(3) by auto
      show ?thesis using "1.IH"(2) [OF Inl True go up again wf1 st1] .
    qed
  qed
qed

lemma mkdir_last_step:
  assumes wf: "wf_fs fs" and q: "is_dir fs start q"
    and nb: "\<not> blocked fs start (q @ [c])"
  shows "\<exists>fs'. mkdir fs start (q @ [c]) parents True = Inr fs'"
proof -
  from q obtain d where d: "walk_dir fs start q = Inr d"
    by (auto simp: is_dir_def split: sum.splits)
  then have dv: "d = vnode start q" by (rule walk_dir_vnode)
  show ?thesis
  proof (cases "c = ''..'' \<or> d @ [c] \<in> fs_dirs fs")
    case True
    then have "is_dir fs start (q @ [c])" using d by (auto simp: is_dir_def walk_dir_append)
    then show ?thesis by (auto dest: mkdir_exists)
  next
    case False
    have "d @ [c] \<notin> fs_files fs" using nb False dv by (auto simp: blocked_append)
    then have "\<exists>fs'. os_mkdir fs start (q @ [c]) = Inr fs'"
      using d False by (simp add: os_mkdir_def)
    then show ?thesis by (subst mkdir.simps) auto
  qed
qed

lemma mkdir_not_blocked:
  "wf_fs fs \<Longrightarrow> start \<in> fs_dirs fs \<Longrightarrow> \<not> blocked fs start parts \<Longrightarrow>
     \<exists>fs'. mkdir fs start parts True True = Inr fs'"
proof (induction parts rule: rev_induct)
  case Nil
  have "is_dir fs start []" by (simp add: is_dir_def)
  then show ?case by (auto dest: mkdir_exists)
next
  case (snoc c q)
  have nbq: "\<not> blocked fs start q" using snoc.prems(3) by (simp add: blocked_append)
  show ?case
  proof (cases "walk_dir fs start q")
    case (Inr d)
    then have "is_dir fs start q" by (simp add: is_dir_def)
    from mkdir_last_step [OF snoc.prems(1) this snoc.prems(3)] show ?thesis .
  next
    case (Inl e)
    then have e: "e = FileNotFoundError" using nbq by (auto dest: walk_dir_not_a_directory)
    then have os: "os_mkdir fs start (q @ [c]) = Inl FileNotFoundError"
      using Inl by (simp add: os_mkdir_def)
    from snoc.IH [OF snoc.prems(1,2) nbq] obtain fs1 where
      up: "mkdir fs start q True True = Inr fs1" by auto
    have wf1: "wf_fs fs1" using up snoc.prems(1,2) by (rule mkdir_wf)
    have cr: "is_dir fs1 start q \<and> fs_files fs1 = fs_files fs" using mkdir_created [OF up] by simp
    then have nb1: "\<not> blocked fs1 start (q @ [c])"
      using snoc.prems(3) by (simp add: blocked_files [of fs1 fs])
    from mkdir_last_step [OF wf1 _ nb1, of False] cr obtain fs' where
      "mkdir fs1 start (q @ [c]) False True = Inr fs'" by auto
    then show ?thesis using os up by (subst mkdir.simps) (simp add: parent_def)
  qed
qed

lemma mkdir_succeeds_iff:
  assumes "wf_fs fs" and "start \<in> fs_dirs fs"
  shows "(\<exists>fs'. mkdir fs start parts True True = Inr fs') \<longleftrightarrow> \<not> blocked fs start parts"
proof
  assume "\<exists>fs'. mkdir fs start parts True True = Inr fs'"
  then obtain fs' where ok: "mkdir fs start parts True True = Inr fs'" ..
  have wf': "wf_fs fs'" using ok assms by (rule mkdir_wf)
  have cr: "is_dir fs' start parts \<and> fs_files fs' = fs_files fs" using mkdir_created [OF ok] by simp
  then obtain d where "walk_dir fs' start parts = Inr d"
    by (auto simp: is_dir_def split: sum.splits)
  then have "\<not> blocked fs' start parts" using wf' by (auto dest: walk_dir_not_blocked)
  then show "\<not> blocked fs start parts" using cr by (simp add: blocked_files [of fs' fs])
next
  assume "\<not> blocked fs start parts"
  then show "\<exists>fs'. mkdir fs start parts True True = Inr fs'"
    using assms by (auto intro: mkdir_not_blocked)
qed

text \<open>
  C9: the run creates its save directory once, with \<open>parents=True\<close> and
  \<open>exist_ok=True\<close>. In a well-formed tree, from a directory, the call with these flags
  returns without changing anything when the path is a directory already; it succeeds
  exactly when no regular file stands on the way; and after it has succeeded the path
  and each of its ancestors is a directory, no directory and no file is lost, and
  a second call returns the tree it is given.
\<close>

theorem train_save_directory:
  assumes "wf_fs fs" and "start \<in> fs_dirs fs"
  shows "[(p, parents, exist_ok). Path_mkdir p parents exist_ok \<leftarrow>
            train env backbone train_dir valid_dir save_dir batch_size binary] =
           [(model_save_path env backbone save_dir binary, True, True)]
         \<and> (is_dir fs start parts \<longrightarrow> mkdir fs start parts True True = Inr fs)
         \<and> ((\<exists>fs'. mkdir fs start parts True True = Inr fs') \<longleftrightarrow> \<not> blocked fs start parts)
         \<and> (\<forall>fs'. mkdir fs start parts True True = Inr fs' \<longrightarrow>
               (\<forall>k. is_dir fs' start (take k parts))
               \<and> fs_dirs fs \<subseteq> fs_dirs fs' \<and> fs_files fs' = fs_files fs
               \<and> wf_fs fs'
               \<and> mkdir fs' start parts True True = Inr fs')"
proof -
  have call: "[(p, parents, exist_ok). Path_mkdir p parents exist_ok \<leftarrow>
            train env backbone train_dir valid_dir save_dir batch_size binary] =
           [(model_save_path env backbone save_dir binary, True, True)]"
    by (cases binary; cases "cuda_is_available env"; simp add: train_def Let_def)
  have exists: "is_dir fs start parts \<longrightarrow> mkdir fs start parts True True = Inr fs"
    by (simp add: mkdir_exists)
  have succeeds: "(\<exists>fs'. mkdir fs start parts True True = Inr fs') \<longleftrightarrow>
      \<not> blocked fs start parts"
    using assms by (rule mkdir_succeeds_iff)
  have after: "(\<forall>k. is_dir fs' start (take k parts))
               \<and> fs_dirs fs \<subseteq> fs_dirs fs' \<and> fs_files fs' = fs_files fs
               \<and> wf_fs fs'
               \<and> mkdir fs' start parts True True = Inr fs'"
    if ok: "mkdir fs start parts True True = Inr fs'" for fs'
  proof -
    have cr: "is_dir fs' start parts \<and> fs_dirs fs \<subseteq> fs_dirs fs' \<and> fs_files fs' = fs_files fs"
      using ok by (rule mkdir_created)
    have "is_dir fs' start (take k parts)" for k
    proof -
      have "is_dir fs' start (take k parts @ drop k parts)" using cr by simp
      then show ?thesis by (rule is_dir_prefix)
    qed
    moreover have "wf_fs fs'" using ok assms by (rule mkdir_wf)
    moreover have "mkdir fs' start parts True True = Inr fs'"
      using cr by (simp add: mkdir_exists)
    ultimately show ?thesis using cr by simp
  qed
  show ?thesis using call exists succeeds after by blast
qed

theorem train_save_directory_witness:
  "wf_fs \<lparr>fs_dirs = {[], [''models'']}, fs_files = {[''notes.txt'']}\<rparr>
   \<and> [] \<in> fs_dirs \<lparr>fs_dirs = {[], [''models'']}, fs_files = {[''notes.txt'']}\<rparr>
   \<and> \<not> blocked \<lparr>fs_dirs = {[], [''models'']}, fs_files = {[''notes.txt'']}\<rparr> []
         [''models'', ''swin'', ''run'']
   \<and> mkdir \<lparr>fs_dirs = {[], [''models'']}, fs_files = {[''notes.txt'']}\<rparr> []
         [''models'', ''swin'', ''run''] True True =
       Inr \<lparr>fs_dirs = {[''models'', ''swin'', ''run''], [''models'', ''swin''], [], [''models'']},
            fs_files = {[''notes.txt'']}\<rparr>
   \<and> is_dir \<lparr>fs_dirs = {[''models'', ''swin'', ''run''], [''models'', ''swin''], [], [''models'']},
            fs_files = {[''notes.txt'']}\<rparr> [] [''models'', ''swin'']
   \<and> mkdir \<lparr>fs_dirs = {[''models'', ''swin'', ''run''], [''models'', ''swin''], [], [''models'']},
            fs_files = {[''notes.txt'']}\<rparr> []
         [''models'', ''swin'', ''run''] True True =
       Inr \<lparr>fs_dirs = {[''models'', ''swin'', ''run''], [''models'', ''swin''], [], [''models'']},
            fs_files = {[''notes.txt'']}\<rparr>"
proof -
  let ?fs = "\<lparr>fs_dirs = {[], [''models'']}, fs_files = {[''notes.txt'']}\<rparr>"
  let ?fs' = "\<lparr>fs_dirs = {[''models'', ''swin'', ''run''], [''models'', ''swin''], [], [''models'']},
            fs_files = {[''notes.txt'']}\<rparr>"
  let ?parts = "[''models'', ''swin'', ''run'']"
  have wf: "wf_fs ?fs" by (simp add: wf_fs_def)
  have st: "[] \<in> fs_dirs ?fs" by simp
  have run: "mkdir ?fs [] ?parts True True = Inr ?fs'"
    by (simp add: mkdir.simps os_mkdir_def Let_def is_dir_def parent_def)
  note th = train_save_directory [OF wf st, of _ _ _ _ _ _ _ ?parts]
  have nb: "\<not> blocked ?fs [] ?parts" using th run by blast
  have after: "(\<forall>k. is_dir ?fs' [] (take k ?parts)) \<and> mkdir ?fs' [] ?parts True True = Inr ?fs'"
    using th run by blast
  then have "is_dir ?fs' [] (take 2 ?parts)" by blast
  then have pre: "is_dir ?fs' [] [''models'', ''swin'']" by simp
  show ?thesis using wf st nb run pre after by blast
qed

end
